theory Spec2Isabelle
  imports Main "HOL-Library.AList" "HOL-Library.List_Lexorder" "HOL-Library.Char_ord"
begin

section \<open>Data model\<close>

text \<open>
  The program is \<^verbatim>\<open>csv_consolidator.py\<close>. Strings are byte strings. A cell of a
  pandas DataFrame is either the null marker (\<^verbatim>\<open>pd.NA\<close> / NaN) or a value, kept
  here as the text that the reader produced for it. A DataFrame is its ordered column
  names and its rows, each row holding one cell per column.
\<close>

datatype cell = NA | Val string

record dataframe =
  columns :: "string list"
  rows :: "cell list list"

text \<open>
  A candidate file as \<^verbatim>\<open>UNPROCESSED_DIR.glob('*.csv')\<close> lists it: its name and the
  lines \<^verbatim>\<open>readlines()\<close> returns, or \<open>None\<close> when it cannot be opened or decoded.
\<close>

record csv_file =
  name :: string
  content :: "string list option"

datatype error =
    ValueError string
  | FileError
  | ParserError
  | EOFError
  | IndexError
  | KeyError

text \<open>
  Timestamps as pandas holds them: a calendar date and the time of day, or the
  not-a-time marker \<^verbatim>\<open>NaT\<close> that \<^verbatim>\<open>pd.to_datetime\<close> gives for a null cell.
\<close>

record timestamp =
  year :: nat
  month :: nat
  day :: nat
  time_of_day :: nat

datatype pd_time = NaT | TS timestamp

text \<open>
  What the run observes of the world: the log lines, and the one call of \<^verbatim>\<open>input()\<close>.
  A log line is kept as its level and its message with the values that the f-string
  interpolates.
\<close>

datatype level = INFO | WARNING | ERROR

datatype message =
    NoCsvFilesFound
  | FoundCsvFiles nat
  | ErrorReading string error
  | ErrorReadingHeaders string error
  | DifferentHeaders
  | AdditionalHeaders string "string set"
  | OnlyCommonHeaders
  | SuccessfullyRead string
  | NoValidCsvFiles
  | Consolidated nat string
  | TotalRows nat
  | TotalColumns nat
  | ErrorOccurred error

datatype event = Log level message | Prompt

text \<open>
  The library calls and the inputs of the run that the source does not define:
  \<^item> \<open>read_csv\<close>: \<^verbatim>\<open>pd.read_csv\<close> on the lines from the header line on (\<open>None\<close>: it raised);
  \<^item> \<open>set_order\<close>: the order in which Python iterates over a set of strings (it depends on
    the hash seed of the process);
  \<^item> \<open>stdin\<close>: the line \<^verbatim>\<open>input()\<close> returns, without its newline (\<open>None\<close>: end of file);
  \<^item> \<open>to_datetime\<close>: \<^verbatim>\<open>pd.to_datetime\<close> on a column (\<open>None\<close>: it raised);
  \<^item> \<open>now\<close>: \<^verbatim>\<open>datetime.now()\<close>;
  \<^item> \<open>to_csv\<close>: the text \<^verbatim>\<open>DataFrame.to_csv(index=False)\<close> writes.
\<close>

record env =
  read_csv :: "string list \<Rightarrow> dataframe option"
  set_order :: "string set \<Rightarrow> string list"
  stdin :: "string option"
  to_datetime :: "cell list \<Rightarrow> pd_time list option"
  now :: timestamp
  to_csv :: "dataframe \<Rightarrow> string"

section \<open>Strings\<close>

text \<open>\<^verbatim>\<open>sub in s\<close> on strings.\<close>

fun starts_with :: "string \<Rightarrow> string \<Rightarrow> bool" where
  "starts_with [] s = True"
| "starts_with (p # ps) [] = False"
| "starts_with (p # ps) (c # cs) = (p = c \<and> starts_with ps cs)"

fun contains :: "string \<Rightarrow> string \<Rightarrow> bool" where
  "contains sub [] = (sub = [])"
| "contains sub (c # cs) = (starts_with sub (c # cs) \<or> contains sub cs)"

text \<open>\<^verbatim>\<open>s.endswith(suf)\<close>.\<close>

definition ends_with :: "string \<Rightarrow> string \<Rightarrow> bool" where
  "ends_with suf s = starts_with (rev suf) (rev s)"

text \<open>\<^verbatim>\<open>str.lower()\<close> on the ASCII letters; other bytes are kept.\<close>

definition lower_char :: "char \<Rightarrow> char" where
  "lower_char c =
     (let n = of_char c :: nat in if 65 \<le> n \<and> n \<le> 90 then char_of (n + 32) else c)"

definition lower :: "string \<Rightarrow> string" where
  "lower s = map lower_char s"

section \<open>Reading one file\<close>

definition header_marker :: string where
  "header_marker = ''ID,Timestamp,Transaction Type''"

text \<open>The loop over \<^verbatim>\<open>enumerate(lines)\<close>: the index of the first line holding the marker.\<close>

fun find_header :: "string list \<Rightarrow> nat \<Rightarrow> nat option" where
  "find_header [] i = None"
| "find_header (l # ls) i =
     (if contains header_marker l then Some i else find_header ls (Suc i))"

text \<open>
  \<^verbatim>\<open>read_csv_with_metadata\<close>: every exception is logged and raised again.
\<close>

definition read_csv_with_metadata :: "env \<Rightarrow> csv_file \<Rightarrow> (error + dataframe) \<times> event list" where
  "read_csv_with_metadata e f =
     (let r = (case content f of
                 None \<Rightarrow> Inl FileError
               | Some lines \<Rightarrow>
                   (case find_header lines 0 of
                      None \<Rightarrow> Inl (ValueError ''Could not find CSV headers'')
                    | Some i \<Rightarrow>
                        (case read_csv e (drop i lines) of
                           None \<Rightarrow> Inl ParserError
                         | Some df \<Rightarrow> Inr df)))
      in case r of
           Inl err \<Rightarrow> (Inl err, [Log ERROR (ErrorReading (name f) err)])
         | Inr df \<Rightarrow> (Inr df, []))"

section \<open>Collecting the headers\<close>

text \<open>
  \<^verbatim>\<open>get_all_headers\<close>: the loop carries the set \<^verbatim>\<open>all_headers\<close> and the dict
  \<^verbatim>\<open>headers_by_file\<close> (an association list in insertion order, a later store to a key
  replacing its value in place). A file that cannot be read ends the loop: the
  exception is logged and raised again.
\<close>

fun get_all_headers_from ::
  "env \<Rightarrow> csv_file list \<Rightarrow> string set \<Rightarrow> (string \<times> string set) list
     \<Rightarrow> (error + string set \<times> (string \<times> string set) list) \<times> event list" where
  "get_all_headers_from e [] all_headers headers_by_file = (Inr (all_headers, headers_by_file), [])"
| "get_all_headers_from e (f # fs) all_headers headers_by_file =
     (case read_csv_with_metadata e f of
        (Inl err, ev) \<Rightarrow> (Inl err, ev @ [Log ERROR (ErrorReadingHeaders (name f) err)])
      | (Inr df, ev) \<Rightarrow>
          (let headers = set (columns df);
               (r, ev') = get_all_headers_from e fs (all_headers \<union> headers)
                            (AList.update (name f) headers headers_by_file)
           in (r, ev @ ev')))"

definition get_all_headers ::
  "env \<Rightarrow> csv_file list \<Rightarrow> (error + string set \<times> (string \<times> string set) list) \<times> event list" where
  "get_all_headers e csv_files = get_all_headers_from e csv_files {} []"

section \<open>The DataFrame operations the program uses\<close>

text \<open>The cell of a row under a column name; null when the row has no such column.\<close>

definition row_get :: "string list \<Rightarrow> cell list \<Rightarrow> string \<Rightarrow> cell" where
  "row_get cols r c = (case map_of (zip cols r) c of None \<Rightarrow> NA | Some v \<Rightarrow> v)"

text \<open>\<^verbatim>\<open>df[col]\<close>: the values of one column.\<close>

definition column_values :: "dataframe \<Rightarrow> string \<Rightarrow> cell list" where
  "column_values df col = map (\<lambda>r. row_get (columns df) r col) (rows df)"

text \<open>\<^verbatim>\<open>df[col] = pd.NA\<close> for a column the frame does not have: a new last column of nulls.\<close>

definition assign_na :: "dataframe \<Rightarrow> string \<Rightarrow> dataframe" where
  "assign_na df col = \<lparr>columns = columns df @ [col], rows = map (\<lambda>r. r @ [NA]) (rows df)\<rparr>"

text \<open>\<^verbatim>\<open>df.reindex(columns=cols)\<close>: exactly the columns \<open>cols\<close>, in that order.\<close>

definition reindex :: "string list \<Rightarrow> dataframe \<Rightarrow> dataframe" where
  "reindex cols df =
     \<lparr>columns = cols, rows = map (\<lambda>r. map (row_get (columns df) r) cols) (rows df)\<rparr>"

text \<open>
  \<^verbatim>\<open>pd.concat(dfs, ignore_index=True)\<close>: the columns are the union of the frames'
  columns in order of first appearance, the rows are the frames' rows in order, each
  aligned to those columns.
\<close>

definition append_new :: "string \<Rightarrow> string list \<Rightarrow> string list" where
  "append_new c acc = (if c \<in> set acc then acc else acc @ [c])"

definition union_columns :: "dataframe list \<Rightarrow> string list" where
  "union_columns dfs = fold (\<lambda>df acc. fold append_new (columns df) acc) dfs []"

definition concat_frames :: "dataframe list \<Rightarrow> dataframe" where
  "concat_frames dfs =
     (let cols = union_columns dfs
      in \<lparr>columns = cols, rows = concat (map (\<lambda>df. rows (reindex cols df)) dfs)\<rparr>)"

section \<open>Naming the output after the dates\<close>

definition date_columns :: "string list" where
  "date_columns = [''date'', ''timestamp'', ''created_at'', ''datetime'', ''time'', ''Timestamp'']"

definition is_date_column :: "string \<Rightarrow> bool" where
  "is_date_column col = list_ex (\<lambda>date_name. contains date_name (lower col)) date_columns"

text \<open>The order of timestamps; every comparison with \<^verbatim>\<open>NaT\<close> is false.\<close>

definition ts_less :: "timestamp \<Rightarrow> timestamp \<Rightarrow> bool" where
  "ts_less a b =
     (year a < year b \<or> (year a = year b \<and>
       (month a < month b \<or> (month a = month b \<and>
         (day a < day b \<or> (day a = day b \<and> time_of_day a < time_of_day b))))))"

fun pd_less :: "pd_time \<Rightarrow> pd_time \<Rightarrow> bool" where
  "pd_less (TS a) (TS b) = ts_less a b"
| "pd_less _ _ = False"

text \<open>\<^verbatim>\<open>Series.min()\<close>: the least value that is not \<^verbatim>\<open>NaT\<close>, and \<^verbatim>\<open>NaT\<close> when there is none.\<close>

definition series_min :: "pd_time list \<Rightarrow> pd_time" where
  "series_min dates =
     (case [t. TS t \<leftarrow> dates] of
        [] \<Rightarrow> NaT
      | t # ts \<Rightarrow> TS (fold (\<lambda>x m. if ts_less x m then x else m) ts t))"

text \<open>
  Python's \<^verbatim>\<open>min\<close> and \<^verbatim>\<open>max\<close> on a non-empty list: the first element, replaced by each
  later one that compares below (above) it.
\<close>

fun py_min :: "pd_time list \<Rightarrow> pd_time" where
  "py_min [] = NaT"
| "py_min (d # ds) = fold (\<lambda>x m. if pd_less x m then x else m) ds d"

fun py_max :: "pd_time list \<Rightarrow> pd_time" where
  "py_max [] = NaT"
| "py_max (d # ds) = fold (\<lambda>x m. if pd_less m x then x else m) ds d"

text \<open>\<^verbatim>\<open>get_csv_date\<close>: the loop over \<^verbatim>\<open>df.columns\<close>.\<close>

fun get_csv_date_from :: "env \<Rightarrow> dataframe \<Rightarrow> string list \<Rightarrow> pd_time option" where
  "get_csv_date_from e df [] = None"
| "get_csv_date_from e df (col # cols) =
     (if is_date_column col then
        (case to_datetime e (column_values df col) of
           None \<Rightarrow> get_csv_date_from e df cols
         | Some dates \<Rightarrow>
             if dates \<noteq> [] then Some (series_min dates) else get_csv_date_from e df cols)
      else get_csv_date_from e df cols)"

definition get_csv_date :: "env \<Rightarrow> dataframe \<Rightarrow> pd_time option" where
  "get_csv_date e df = get_csv_date_from e df (columns df)"

text \<open>Decimal digits, and \<^verbatim>\<open>strftime("%m-%d-%Y")\<close>; \<^verbatim>\<open>NaT\<close> has no \<^verbatim>\<open>strftime\<close>.\<close>

fun digits :: "nat \<Rightarrow> string" where
  "digits n = (if n < 10 then [char_of (48 + n)] else digits (n div 10) @ [char_of (48 + n mod 10)])"

declare digits.simps [simp del]

definition zfill :: "nat \<Rightarrow> string \<Rightarrow> string" where
  "zfill w s = replicate (w - length s) (CHR ''0'') @ s"

definition strftime :: "timestamp \<Rightarrow> string" where
  "strftime t =
     zfill 2 (digits (month t)) @ ''-'' @ zfill 2 (digits (day t)) @ ''-'' @ zfill 4 (digits (year t))"

fun pd_strftime :: "pd_time \<Rightarrow> error + string" where
  "pd_strftime NaT = Inl (ValueError ''NaTType does not support strftime'')"
| "pd_strftime (TS t) = Inr (strftime t)"

definition generate_date_range_filename :: "env \<Rightarrow> dataframe list \<Rightarrow> error + string" where
  "generate_date_range_filename e dfs =
     (let all_dates = List.map_filter (get_csv_date e) dfs
      in if all_dates \<noteq> [] then
           (case pd_strftime (py_min all_dates) of
              Inl err \<Rightarrow> Inl err
            | Inr earliest \<Rightarrow>
                (case pd_strftime (py_max all_dates) of
                   Inl err \<Rightarrow> Inl err
                 | Inr latest \<Rightarrow> Inr (''consolidated_'' @ earliest @ ''_thru_'' @ latest @ ''.csv'')))
         else Inr (''consolidated_'' @ strftime (now e) @ ''.csv''))"

section \<open>The pipeline\<close>

text \<open>
  Lines 133 to 149 of \<^verbatim>\<open>consolidate_csvs\<close>: the headers are collected, the first file's
  set is the base, and when some file has a header outside the base the user is asked
  once. The result is the set \<^verbatim>\<open>all_headers\<close> the merge uses.
\<close>

definition additional_warnings :: "string set \<Rightarrow> (string \<times> string set) list \<Rightarrow> event list" where
  "additional_warnings base_headers headers_by_file =
     concat (map (\<lambda>(file, headers).
        (let diff = headers - base_headers
         in if diff \<noteq> {} then [Log WARNING (AdditionalHeaders file diff)] else []))
       headers_by_file)"

definition reconcile :: "env \<Rightarrow> csv_file list \<Rightarrow> (error + string set) \<times> event list" where
  "reconcile e csv_files =
     (case get_all_headers e csv_files of
        (Inl err, ev) \<Rightarrow> (Inl err, ev)
      | (Inr (all_headers, headers_by_file), ev) \<Rightarrow>
          (case csv_files of
             [] \<Rightarrow> (Inl IndexError, ev)
           | first # others \<Rightarrow>
               (case map_of headers_by_file (name first) of
                  None \<Rightarrow> (Inl KeyError, ev)
                | Some base_headers \<Rightarrow>
                    (let new_headers = all_headers - base_headers
                     in if new_headers \<noteq> {} then
                          (let ev1 = ev @ [Log WARNING DifferentHeaders]
                                       @ additional_warnings base_headers headers_by_file @ [Prompt]
                           in case stdin e of
                                None \<Rightarrow> (Inl EOFError, ev1)
                              | Some response \<Rightarrow>
                                  if lower response \<noteq> ''y''
                                  then (Inr base_headers, ev1 @ [Log INFO OnlyCommonHeaders])
                                  else (Inr all_headers, ev1))
                        else (Inr all_headers, ev)))))"

text \<open>The inner loop of lines 157 to 159, over the header set in its iteration order.\<close>

fun add_missing :: "string list \<Rightarrow> dataframe \<Rightarrow> dataframe" where
  "add_missing [] df = df"
| "add_missing (col # cols) df =
     add_missing cols (if col \<notin> set (columns df) then assign_na df col else df)"

text \<open>
  The loop of lines 153 to 164: a file that cannot be read is logged and skipped, the
  others are padded and collected.
\<close>

fun merge_files :: "env \<Rightarrow> string set \<Rightarrow> csv_file list \<Rightarrow> dataframe list \<times> event list" where
  "merge_files e all_headers [] = ([], [])"
| "merge_files e all_headers (f # fs) =
     (case read_csv_with_metadata e f of
        (Inl err, ev) \<Rightarrow>
          (let (dfs, ev') = merge_files e all_headers fs
           in (dfs, ev @ [Log ERROR (ErrorReading (name f) err)] @ ev'))
      | (Inr df, ev) \<Rightarrow>
          (let df' = add_missing (set_order e all_headers) df;
               (dfs, ev') = merge_files e all_headers fs
           in (df' # dfs, ev @ [Log INFO (SuccessfullyRead (name f))] @ ev')))"

text \<open>Lines 177 to 180: the name given, with \<^verbatim>\<open>.csv\<close> appended when missing, or the derived one.\<close>

definition choose_filename :: "env \<Rightarrow> string option \<Rightarrow> dataframe list \<Rightarrow> error + string" where
  "choose_filename e output_filename dfs =
     (case output_filename of
        None \<Rightarrow> generate_date_range_filename e dfs
      | Some n \<Rightarrow> Inr (if ends_with ''.csv'' n then n else n @ ''.csv''))"

text \<open>
  The body of the \<^verbatim>\<open>try\<close>: it raises, or returns early having written nothing
  (\<open>Inr None\<close>), or reaches \<^verbatim>\<open>to_csv\<close> with a file name and the final table and logs
  the three closing lines.
\<close>

definition consolidate_try ::
  "env \<Rightarrow> csv_file list \<Rightarrow> string option \<Rightarrow> (error + (string \<times> dataframe) option) \<times> event list" where
  "consolidate_try e csv_files output_filename =
     (case reconcile e csv_files of
        (Inl err, ev) \<Rightarrow> (Inl err, ev)
      | (Inr all_headers, ev) \<Rightarrow>
          (let (dfs, ev2) = merge_files e all_headers csv_files
           in if dfs = [] then (Inr None, ev @ ev2 @ [Log ERROR NoValidCsvFiles])
              else
                (let final_df = reindex (set_order e all_headers) (concat_frames dfs)
                 in case choose_filename e output_filename dfs of
                      Inl err \<Rightarrow> (Inl err, ev @ ev2)
                    | Inr fname \<Rightarrow>
                        (Inr (Some (fname, final_df)),
                         ev @ ev2 @ [Log INFO (Consolidated (length dfs) fname),
                                     Log INFO (TotalRows (length (rows final_df))),
                                     Log INFO (TotalColumns (length (columns final_df)))]))))"

datatype outcome = Returned | Raised error

text \<open>
  \<^verbatim>\<open>consolidate_csvs\<close>, on the files the glob lists and the processed directory (file
  name to text): how the call ends, the processed directory afterwards, and the events.
\<close>

definition consolidate_csvs ::
  "env \<Rightarrow> csv_file list \<Rightarrow> string option \<Rightarrow> (string \<rightharpoonup> string)
     \<Rightarrow> outcome \<times> (string \<rightharpoonup> string) \<times> event list" where
  "consolidate_csvs e csv_files output_filename processed =
     (if csv_files = [] then (Returned, processed, [Log ERROR NoCsvFilesFound])
      else
        (let ev0 = [Log INFO (FoundCsvFiles (length csv_files))]
         in case consolidate_try e csv_files output_filename of
              (Inl err, ev) \<Rightarrow> (Raised err, processed, ev0 @ ev @ [Log ERROR (ErrorOccurred err)])
            | (Inr None, ev) \<Rightarrow> (Returned, processed, ev0 @ ev)
            | (Inr (Some (fname, final_df)), ev) \<Rightarrow>
                (Returned, processed(fname \<mapsto> to_csv e final_df), ev0 @ ev)))"

section \<open>Notions used to state the properties\<close>

text \<open>The frame a file is read as, when it can be read.\<close>

definition parse_file :: "env \<Rightarrow> csv_file \<Rightarrow> dataframe option" where
  "parse_file e f = (case fst (read_csv_with_metadata e f) of Inl err \<Rightarrow> None | Inr df \<Rightarrow> Some df)"

text \<open>The header set of a file, as \<^verbatim>\<open>set(df.columns)\<close>, and the union over the files.\<close>

definition headers_of :: "env \<Rightarrow> csv_file \<Rightarrow> string set" where
  "headers_of e f = (case parse_file e f of None \<Rightarrow> {} | Some df \<Rightarrow> set (columns df))"

definition union_headers :: "env \<Rightarrow> csv_file list \<Rightarrow> string set" where
  "union_headers e fs = (\<Union>f\<in>set fs. headers_of e f)"

text \<open>The dict \<^verbatim>\<open>headers_by_file\<close> after the files \<open>fs\<close> have been stored into it.\<close>

definition record_headers ::
  "env \<Rightarrow> csv_file list \<Rightarrow> (string \<times> string set) list \<Rightarrow> (string \<times> string set) list" where
  "record_headers e fs hbf = fold (\<lambda>f. AList.update (name f) (headers_of e f)) fs hbf"

text \<open>
  What is logged and asked when some file has a header outside the base: the warning,
  one line for each file with additional headers, and the prompt.
\<close>

definition mismatch_events :: "env \<Rightarrow> csv_file list \<Rightarrow> event list" where
  "mismatch_events e fs =
     [Log WARNING DifferentHeaders]
     @ concat (map (\<lambda>f. if headers_of e f - headers_of e (hd fs) \<noteq> {}
                         then [Log WARNING (AdditionalHeaders (name f) (headers_of e f - headers_of e (hd fs)))]
                         else []) fs)
     @ [Prompt]"

text \<open>
  A frame as \<^verbatim>\<open>pd.read_csv\<close> returns it: column names without repetition (pandas renames
  repeated ones) and one cell for each column in every row.
\<close>

definition wf_frame :: "dataframe \<Rightarrow> bool" where
  "wf_frame df = (distinct (columns df) \<and> list_all (\<lambda>r. length r = length (columns df)) (rows df))"

definition wf_parsed :: "env \<Rightarrow> csv_file list \<Rightarrow> bool" where
  "wf_parsed e fs =
     list_all (\<lambda>f. case parse_file e f of None \<Rightarrow> True | Some df \<Rightarrow> wf_frame df) fs"

text \<open>A readable file none of whose lines holds the header marker.\<close>

definition lacks_marker :: "csv_file \<Rightarrow> bool" where
  "lacks_marker f =
     (case content f of None \<Rightarrow> False | Some lines \<Rightarrow> \<not> list_ex (contains header_marker) lines)"

text \<open>The position of the first occurrence of a column name.\<close>

definition index_of :: "string \<Rightarrow> string list \<Rightarrow> nat" where
  "index_of c cols = length (takeWhile (\<lambda>x. x \<noteq> c) cols)"

text \<open>The columns the loop of lines 157 to 159 adds to a frame with the columns \<open>have\<close>.\<close>

fun missing_cols :: "string list \<Rightarrow> string list \<Rightarrow> string list" where
  "missing_cols [] have = []"
| "missing_cols (c # cs) have =
     (if c \<notin> set have then c # missing_cols cs (have @ [c]) else missing_cols cs have)"

section \<open>A concrete environment for worked examples\<close>

text \<open>
  The examples run the program on small files. They use a reader, a date parser and a
  writer for plain input only: fields without quotes or embedded commas, ISO dates
  \<^verbatim>\<open>YYYY-MM-DD\<close>. On such input they give what pandas gives, cell values being kept as
  their text; an empty field is a null, and a null cell parses to \<^verbatim>\<open>NaT\<close>. The reader
  refuses input it does not cover (repeated column names, rows longer than the header).
\<close>

fun split_on :: "char \<Rightarrow> string \<Rightarrow> string list" where
  "split_on d [] = [[]]"
| "split_on d (c # cs) =
     (if c = d then [] # split_on d cs
      else (case split_on d cs of [] \<Rightarrow> [[c]] | w # ws \<Rightarrow> (c # w) # ws))"

definition chomp :: "string \<Rightarrow> string" where
  "chomp s = (if s \<noteq> [] \<and> last s = CHR 0x0A then butlast s else s)"

definition field_cell :: "string \<Rightarrow> cell" where
  "field_cell s = (if s = [] then NA else Val s)"

definition plain_read_csv :: "string list \<Rightarrow> dataframe option" where
  "plain_read_csv lines =
     (case lines of
        [] \<Rightarrow> None
      | h # body \<Rightarrow>
          (let cols = split_on CHR '','' (chomp h);
               rs = map (\<lambda>l. map field_cell (split_on CHR '','' (chomp l))) [l \<leftarrow> body. chomp l \<noteq> []]
           in if distinct cols \<and> list_all (\<lambda>r. length r \<le> length cols) rs
              then Some \<lparr>columns = cols,
                         rows = map (\<lambda>r. r @ replicate (length cols - length r) NA) rs\<rparr>
              else None))"

fun number :: "string \<Rightarrow> nat option" where
  "number s =
     (if s \<noteq> [] \<and> list_all (\<lambda>c. 48 \<le> (of_char c :: nat) \<and> (of_char c :: nat) \<le> 57) s
      then Some (foldl (\<lambda>n c. 10 * n + (of_char c - 48)) 0 s) else None)"

definition iso_date :: "string \<Rightarrow> timestamp option" where
  "iso_date s =
     (case map number (split_on CHR ''-'' s) of
        [Some y, Some m, Some d] \<Rightarrow> Some \<lparr>year = y, month = m, day = d, time_of_day = 0\<rparr>
      | _ \<Rightarrow> None)"

fun iso_to_datetime :: "cell list \<Rightarrow> pd_time list option" where
  "iso_to_datetime [] = Some []"
| "iso_to_datetime (NA # cs) = map_option ((#) NaT) (iso_to_datetime cs)"
| "iso_to_datetime (Val s # cs) =
     (case iso_date s of
        None \<Rightarrow> None
      | Some t \<Rightarrow> map_option ((#) (TS t)) (iso_to_datetime cs))"

fun join_commas :: "string list \<Rightarrow> string" where
  "join_commas [] = []"
| "join_commas [s] = s"
| "join_commas (s # t # ss) = s @ '','' @ join_commas (t # ss)"

definition cell_text :: "cell \<Rightarrow> string" where
  "cell_text c = (case c of NA \<Rightarrow> [] | Val s \<Rightarrow> s)"

definition plain_to_csv :: "dataframe \<Rightarrow> string" where
  "plain_to_csv df =
     concat (map (\<lambda>r. join_commas r @ [CHR 0x0A]) (columns df # map (map cell_text) (rows df)))"

text \<open>
  An iteration order for sets of strings: the members that occur in the list \<open>pri\<close> in
  the order of that list, then any others in alphabetical order. Every permutation of a
  given set is the order of some \<open>pri\<close>.
\<close>

definition listed_order :: "string list \<Rightarrow> string set \<Rightarrow> string list" where
  "listed_order pri S = filter (\<lambda>c. c \<in> S) (remdups pri) @ sorted_list_of_set (S - set pri)"

definition example_env :: "string list \<Rightarrow> string option \<Rightarrow> env" where
  "example_env pri answer =
     \<lparr>read_csv = plain_read_csv, set_order = listed_order pri, stdin = answer,
      to_datetime = iso_to_datetime,
      now = \<lparr>year = 2026, month = 11, day = 4, time_of_day = 0\<rparr>,
      to_csv = plain_to_csv\<rparr>"

text \<open>A line of a file as \<^verbatim>\<open>readlines()\<close> returns it, with its newline.\<close>

definition line :: "string \<Rightarrow> string" where
  "line s = s @ [CHR 0x0A]"

definition alphabetical :: "string list" where
  "alphabetical = [''Amount'', ''ID'', ''Note'', ''Timestamp'', ''Transaction Type'']"

definition as_in_file :: "string list" where
  "as_in_file = [''ID'', ''Timestamp'', ''Transaction Type'', ''Amount'', ''Note'']"

definition file_a :: csv_file where
  "file_a = \<lparr>name = ''a.csv'', content = Some
     [line ''Export of account 17'',
      line ''ID,Timestamp,Transaction Type,Amount'',
      line ''1,2024-01-05,deposit,10'',
      line ''2,2024-01-10,payment,20'']\<rparr>"

definition file_b :: csv_file where
  "file_b = \<lparr>name = ''b.csv'', content = Some
     [line ''ID,Timestamp,Transaction Type,Amount,Note'',
      line ''3,2024-02-01,deposit,30,late'']\<rparr>"

definition file_c :: csv_file where
  "file_c = \<lparr>name = ''c.csv'', content = Some
     [line ''ID,Timestamp,Transaction Type'',
      line ''5,2024-02-02,refund'']\<rparr>"

definition file_d :: csv_file where
  "file_d = \<lparr>name = ''d.csv'', content = Some
     [line ''Amount,ID,Timestamp,Transaction Type'',
      line ''40,4,2024-01-20,deposit'']\<rparr>"

definition file_e :: csv_file where
  "file_e = \<lparr>name = ''e.csv'', content = Some
     [line ''ID,Timestamp,Transaction Type'',
      line ''6,,deposit'']\<rparr>"

definition file_bad :: csv_file where
  "file_bad = \<lparr>name = ''bad.csv'', content = Some
     [line ''ID;Timestamp;Transaction Type'',
      line ''4;2024-03-01;deposit'']\<rparr>"


text \<open>The tables that the example runs write.\<close>

definition table_a_d :: dataframe where
  "table_a_d =
     \<lparr>columns = [''Amount'', ''ID'', ''Timestamp'', ''Transaction Type''],
      rows = [[Val ''10'', Val ''1'', Val ''2024-01-05'', Val ''deposit''],
              [Val ''20'', Val ''2'', Val ''2024-01-10'', Val ''payment''],
              [Val ''40'', Val ''4'', Val ''2024-01-20'', Val ''deposit'']]\<rparr>"

definition table_a_b_all :: dataframe where
  "table_a_b_all =
     \<lparr>columns = [''Amount'', ''ID'', ''Note'', ''Timestamp'', ''Transaction Type''],
      rows = [[Val ''10'', Val ''1'', NA, Val ''2024-01-05'', Val ''deposit''],
              [Val ''20'', Val ''2'', NA, Val ''2024-01-10'', Val ''payment''],
              [Val ''30'', Val ''3'', Val ''late'', Val ''2024-02-01'', Val ''deposit'']]\<rparr>"

definition table_a_b_base :: dataframe where
  "table_a_b_base =
     \<lparr>columns = [''Amount'', ''ID'', ''Timestamp'', ''Transaction Type''],
      rows = [[Val ''10'', Val ''1'', Val ''2024-01-05'', Val ''deposit''],
              [Val ''20'', Val ''2'', Val ''2024-01-10'', Val ''payment''],
              [Val ''30'', Val ''3'', Val ''2024-02-01'', Val ''deposit'']]\<rparr>"

definition table_a_c :: dataframe where
  "table_a_c =
     \<lparr>columns = [''Amount'', ''ID'', ''Timestamp'', ''Transaction Type''],
      rows = [[Val ''10'', Val ''1'', Val ''2024-01-05'', Val ''deposit''],
              [Val ''20'', Val ''2'', Val ''2024-01-10'', Val ''payment''],
              [NA, Val ''5'', Val ''2024-02-02'', Val ''refund'']]\<rparr>"

section \<open>Lemmas about the operations\<close>

lemma add_missing_shape:
  "add_missing cs df =
     \<lparr>columns = columns df @ missing_cols cs (columns df),
      rows = map (\<lambda>r. r @ replicate (length (missing_cols cs (columns df))) NA) (rows df)\<rparr>"
proof (induction cs arbitrary: df)
  case Nil
  then show ?case by simp
next
  case (Cons c cs)
  then show ?case by (simp add: assign_na_def replicate_append_same o_def)
qed

lemma set_missing_cols: "set have \<union> set (missing_cols cs have) = set have \<union> set cs"
proof (induction cs arbitrary: "have")
  case Nil
  then show ?case by simp
next
  case (Cons c cs)
  show ?case
  proof (cases "c \<in> set have")
    case True
    then show ?thesis using Cons.IH [of "have"] by auto
  next
    case False
    then show ?thesis using Cons.IH [of "have @ [c]"] by auto
  qed
qed

lemma columns_add_missing: "set (columns (add_missing cs df)) = set (columns df) \<union> set cs"
  by (simp add: add_missing_shape set_missing_cols)

lemma row_get_padded:
  assumes "length r = length cols"
  shows "row_get (cols @ new) (r @ replicate k NA) c = row_get cols r c"
proof (cases "map_of (zip cols r) c")
  case None
  have "map_of (zip new (replicate k NA)) c = None \<or> map_of (zip new (replicate k NA)) c = Some NA"
  proof (cases "map_of (zip new (replicate k NA)) c")
    case (Some v)
    then have "(c, v) \<in> set (zip new (replicate k NA))" by (rule map_of_SomeD)
    then have "v \<in> set (replicate k NA)" by (rule set_zip_rightD)
    then show ?thesis using Some by simp
  qed simp
  then show ?thesis using assms by (auto simp: row_get_def map_add_def None)
next
  case (Some v)
  show ?thesis using assms by (simp add: row_get_def map_add_def Some)
qed

lemma row_get_map: "c \<in> set U \<Longrightarrow> row_get U (map f U) c = f c"
  by (simp add: row_get_def map_of_zip_map)

lemma set_fold_append_new: "set (fold append_new cs acc) = set acc \<union> set cs"
  by (induction cs arbitrary: acc) (auto simp: append_new_def)

lemma set_union_columns_from:
  "set (fold (\<lambda>df acc. fold append_new (columns df) acc) dfs acc) = set acc \<union> (\<Union>df\<in>set dfs. set (columns df))"
  by (induction dfs arbitrary: acc) (auto simp: set_fold_append_new)

lemma set_union_columns: "set (union_columns dfs) = (\<Union>df\<in>set dfs. set (columns df))"
  by (simp add: union_columns_def set_union_columns_from)

lemma reindex_concat_frames:
  assumes "set cols \<subseteq> set (union_columns dfs)"
  shows "reindex cols (concat_frames dfs) =
           \<lparr>columns = cols, rows = concat (map (\<lambda>df. rows (reindex cols df)) dfs)\<rparr>"
proof -
  have key: "map (row_get (union_columns dfs) (map f (union_columns dfs))) cols = map f cols" for f
    using assms by (auto simp: row_get_map)
  show ?thesis
    by (simp add: reindex_def concat_frames_def Let_def map_concat o_def key)
qed

lemma reindex_add_missing:
  assumes "wf_frame df"
  shows "rows (reindex cols (add_missing cs df)) = rows (reindex cols df)"
  using assms
  by (auto simp: reindex_def add_missing_shape wf_frame_def list_all_iff row_get_padded)

lemma read_ok: "parse_file e f = Some df \<Longrightarrow> read_csv_with_metadata e f = (Inr df, [])"
  by (auto simp: parse_file_def read_csv_with_metadata_def Let_def split: option.splits sum.splits)

lemma read_fail:
  "parse_file e f = None \<Longrightarrow>
     \<exists>err. read_csv_with_metadata e f = (Inl err, [Log ERROR (ErrorReading (name f) err)])"
  by (auto simp: parse_file_def read_csv_with_metadata_def Let_def split: option.splits sum.splits)

lemma get_all_headers_from_ok:
  "\<forall>f\<in>set fs. parse_file e f \<noteq> None \<Longrightarrow>
     get_all_headers_from e fs ah hbf =
       (Inr (ah \<union> (\<Union>f\<in>set fs. headers_of e f), record_headers e fs hbf), [])"
proof (induction fs arbitrary: ah hbf)
  case Nil
  then show ?case by (simp add: record_headers_def)
next
  case (Cons f fs)
  from Cons.prems obtain df where df: "parse_file e f = Some df" by auto
  have rest: "\<forall>f\<in>set fs. parse_file e f \<noteq> None" using Cons.prems by simp
  show ?case
    by (simp add: read_ok [OF df] Cons.IH [OF rest] record_headers_def headers_of_def df Un_assoc Let_def)
qed

lemma get_all_headers_from_fail:
  "\<exists>f\<in>set fs. parse_file e f = None \<Longrightarrow>
     \<exists>err ev. get_all_headers_from e fs ah hbf = (Inl err, ev)"
proof (induction fs arbitrary: ah hbf)
  case Nil
  then show ?case by simp
next
  case (Cons f fs)
  show ?case
  proof (cases "parse_file e f")
    case None
    from read_fail [OF None] show ?thesis by auto
  next
    case (Some df)
    with Cons.prems have "\<exists>f\<in>set fs. parse_file e f = None" by auto
    from Cons.IH [OF this] show ?thesis
      by (simp add: read_ok [OF Some] split: prod.splits) metis
  qed
qed

lemma update_fresh: "k \<notin> fst ` set al \<Longrightarrow> AList.update k v al = al @ [(k, v)]"
  by (induction al) auto

lemma record_headers_distinct:
  "distinct (map name fs) \<Longrightarrow> name ` set fs \<inter> fst ` set hbf = {} \<Longrightarrow>
     record_headers e fs hbf = hbf @ map (\<lambda>f. (name f, headers_of e f)) fs"
proof (induction fs arbitrary: hbf)
  case Nil
  then show ?case by (simp add: record_headers_def)
next
  case (Cons f fs)
  have fresh: "name f \<notin> fst ` set hbf" using Cons.prems by auto
  have "name ` set fs \<inter> fst ` set (hbf @ [(name f, headers_of e f)]) = {}"
    using Cons.prems by auto
  with Cons.IH [of "hbf @ [(name f, headers_of e f)]"] Cons.prems
  have "record_headers e fs (hbf @ [(name f, headers_of e f)]) =
          (hbf @ [(name f, headers_of e f)]) @ map (\<lambda>f. (name f, headers_of e f)) fs"
    by simp
  then show ?case by (simp add: record_headers_def update_fresh [OF fresh])
qed

lemma map_of_record_headers_hd:
  assumes "fs \<noteq> []" "distinct (map name fs)"
  shows "map_of (record_headers e fs []) (name (hd fs)) = Some (headers_of e (hd fs))"
proof -
  obtain f fs' where fs: "fs = f # fs'" using assms(1) by (cases fs) auto
  have "record_headers e fs [] = map (\<lambda>f. (name f, headers_of e f)) fs"
    using record_headers_distinct [of fs "[]" e] assms(2) by simp
  then show ?thesis by (simp add: fs)
qed

lemma merge_files_frames:
  "fst (merge_files e H fs) =
     map (add_missing (set_order e H)) (List.map_filter (parse_file e) fs)"
proof (induction fs)
  case Nil
  then show ?case by simp
next
  case (Cons f fs)
  show ?case
  proof (cases "parse_file e f")
    case None
    from read_fail [OF None] obtain err where
      "read_csv_with_metadata e f = (Inl err, [Log ERROR (ErrorReading (name f) err)])" by blast
    then show ?thesis using Cons.IH None
      by (auto split: prod.splits)
  next
    case (Some df)
    then show ?thesis using Cons.IH
      by (auto simp: read_ok [OF Some] split: prod.splits)
  qed
qed

lemma merge_files_events_ok:
  "\<forall>f\<in>set fs. parse_file e f \<noteq> None \<Longrightarrow>
     snd (merge_files e H fs) = map (\<lambda>f. Log INFO (SuccessfullyRead (name f))) fs"
proof (induction fs)
  case Nil
  then show ?case by simp
next
  case (Cons f fs)
  from Cons.prems obtain df where df: "parse_file e f = Some df" by auto
  show ?case using Cons by (auto simp: read_ok [OF df] split: prod.splits)
qed

lemma reconcile_fail:
  "\<exists>f\<in>set fs. parse_file e f = None \<Longrightarrow> \<exists>err ev. reconcile e fs = (Inl err, ev)"
  using get_all_headers_from_fail [of fs e "{}" "[]"]
  by (auto simp: reconcile_def get_all_headers_def)

lemma reconcile_ok:
  assumes "fs \<noteq> []" "distinct (map name fs)" "\<forall>f\<in>set fs. parse_file e f \<noteq> None"
  shows "reconcile e fs =
     (if union_headers e fs - headers_of e (hd fs) \<noteq> {} then
        (case stdin e of
           None \<Rightarrow> (Inl EOFError, mismatch_events e fs)
         | Some response \<Rightarrow>
             if lower response \<noteq> ''y''
             then (Inr (headers_of e (hd fs)), mismatch_events e fs @ [Log INFO OnlyCommonHeaders])
             else (Inr (union_headers e fs), mismatch_events e fs))
      else (Inr (union_headers e fs), []))"
proof -
  have g: "get_all_headers e fs = (Inr (union_headers e fs, record_headers e fs []), [])"
    using get_all_headers_from_ok [OF assms(3), of "{}" "[]"]
    by (simp add: get_all_headers_def union_headers_def)
  have items: "record_headers e fs [] = map (\<lambda>f. (name f, headers_of e f)) fs"
    using record_headers_distinct [of fs "[]" e] assms(2) by simp
  have base: "map_of (record_headers e fs []) (name (hd fs)) = Some (headers_of e (hd fs))"
    by (rule map_of_record_headers_hd [OF assms(1,2)])
  have warn: "additional_warnings (headers_of e (hd fs)) (map (\<lambda>f. (name f, headers_of e f)) fs)
                = concat (map (\<lambda>f. if headers_of e f - headers_of e (hd fs) \<noteq> {}
                         then [Log WARNING (AdditionalHeaders (name f) (headers_of e f - headers_of e (hd fs)))]
                         else []) fs)"
    by (simp add: additional_warnings_def o_def Let_def)
  obtain f fs' where fs: "fs = f # fs'" using assms(1) by (cases fs) auto
  have base': "map_of (record_headers e (f # fs') []) (name f) = Some (headers_of e f)"
    using base by (simp add: fs)
  have step: "reconcile e (f # fs') =
     (if union_headers e (f # fs') - headers_of e f \<noteq> {} then
        (case stdin e of
           None \<Rightarrow> (Inl EOFError, mismatch_events e (f # fs'))
         | Some response \<Rightarrow>
             if lower response \<noteq> ''y''
             then (Inr (headers_of e f), mismatch_events e (f # fs') @ [Log INFO OnlyCommonHeaders])
             else (Inr (union_headers e (f # fs')), mismatch_events e (f # fs')))
      else (Inr (union_headers e (f # fs')), []))"
    unfolding reconcile_def g [unfolded fs]
    by (simp add: base' Let_def mismatch_events_def split: option.splits)
       (simp add: items [unfolded fs] warn [unfolded fs, simplified])
  show ?thesis unfolding fs list.sel by (rule step)
qed

lemma reconcile_Inr_parses:
  assumes "fst (reconcile e fs) = Inr H"
  shows "\<forall>f\<in>set fs. parse_file e f \<noteq> None"
proof (rule ccontr)
  assume "\<not> (\<forall>f\<in>set fs. parse_file e f \<noteq> None)"
  then have "\<exists>f\<in>set fs. parse_file e f = None" by simp
  from reconcile_fail [OF this] obtain err ev where "reconcile e fs = (Inl err, ev)" by blast
  with assms show False by simp
qed

lemma consolidate_try_written:
  assumes "fst (consolidate_try e fs out) = Inr (Some (fname, final_df))"
  shows "\<exists>H. fst (reconcile e fs) = Inr H
           \<and> fst (merge_files e H fs) \<noteq> []
           \<and> final_df = reindex (set_order e H) (concat_frames (fst (merge_files e H fs)))
           \<and> choose_filename e out (fst (merge_files e H fs)) = Inr fname"
  using assms
  by (auto simp: consolidate_try_def Let_def split: prod.splits sum.splits if_splits)

lemma final_frame:
  assumes "\<forall>df\<in>set dfs. wf_frame df" "dfs \<noteq> []"
  shows "reindex cols (concat_frames (map (add_missing cols) dfs)) =
           \<lparr>columns = cols, rows = concat (map (\<lambda>df. rows (reindex cols df)) dfs)\<rparr>"
proof -
  obtain d ds where dfs: "dfs = d # ds" using assms(2) by (cases dfs) auto
  have "set cols \<subseteq> set (columns (add_missing cols d))" by (simp add: columns_add_missing)
  then have sub: "set cols \<subseteq> set (union_columns (map (add_missing cols) dfs))"
    by (auto simp: set_union_columns dfs)
  have "map (\<lambda>df. rows (reindex cols df)) (map (add_missing cols) dfs)
          = map (\<lambda>df. rows (reindex cols df)) dfs"
    using assms(1) by (simp add: reindex_add_missing)
  then show ?thesis by (simp only: reindex_concat_frames [OF sub])
qed

lemma valid_listed_order: "finite S \<Longrightarrow> set (listed_order pri S) = S \<and> distinct (listed_order pri S)"
  by (auto simp: listed_order_def)

lemma find_header_None: "find_header ls i = None \<longleftrightarrow> \<not> list_ex (contains header_marker) ls"
  by (induction ls arbitrary: i) auto

lemma read_lacks_marker:
  "lacks_marker f \<Longrightarrow>
     read_csv_with_metadata e f =
       (Inl (ValueError ''Could not find CSV headers''),
        [Log ERROR (ErrorReading (name f) (ValueError ''Could not find CSV headers''))])"
proof -
  assume "lacks_marker f"
  then obtain lines where c: "content f = Some lines"
    and n: "\<not> list_ex (contains header_marker) lines"
    by (auto simp: lacks_marker_def split: option.splits)
  from n have "find_header lines 0 = None" by (simp add: find_header_None)
  then show ?thesis by (simp add: read_csv_with_metadata_def c)
qed

lemma parse_lacks_marker: "lacks_marker f \<Longrightarrow> parse_file e f = None"
  by (simp add: parse_file_def read_lacks_marker)

lemma row_get_index:
  "length r = length cols \<Longrightarrow> c \<in> set cols \<Longrightarrow> row_get cols r c = r ! index_of c cols"
proof (induction cols arbitrary: r)
  case Nil
  then show ?case by simp
next
  case (Cons x cols)
  then obtain v vs where r: "r = v # vs" by (cases r) auto
  show ?case
  proof (cases "x = c")
    case True
    then show ?thesis by (simp add: r row_get_def index_of_def)
  next
    case False
    with Cons.prems r have "length vs = length cols" "c \<in> set cols" by auto
    from Cons.IH [OF this] False show ?thesis by (simp add: r row_get_def index_of_def)
  qed
qed

lemma row_get_absent: "c \<notin> set cols \<Longrightarrow> row_get cols r c = NA"
proof -
  assume "c \<notin> set cols"
  then have "map_of (zip cols r) c = None"
    by (auto simp: map_of_eq_None_iff dest: set_zip_leftD)
  then show ?thesis by (simp add: row_get_def)
qed

lemma merge_files_only_logs:
  assumes "\<And>m. \<not> P (Log INFO m)" "\<And>m. \<not> P (Log ERROR m)"
  shows "filter P (snd (merge_files e H fs)) = []"
proof (induction fs)
  case Nil
  then show ?case by simp
next
  case (Cons f fs)
  show ?case
  proof (cases "parse_file e f")
    case None
    from read_fail [OF None] obtain err where
      "read_csv_with_metadata e f = (Inl err, [Log ERROR (ErrorReading (name f) err)])" by blast
    then show ?thesis using Cons.IH assms by (auto split: prod.splits)
  next
    case (Some df)
    then show ?thesis using Cons.IH assms by (auto simp: read_ok [OF Some] split: prod.splits)
  qed
qed

lemma consolidate_try_events:
  assumes "\<And>m. \<not> P (Log INFO m)" "\<And>m. \<not> P (Log ERROR m)"
  shows "filter P (snd (consolidate_try e fs out)) = filter P (snd (reconcile e fs))"
proof -
  have m: "filter P (snd (merge_files e H fs)) = []" for H
    by (rule merge_files_only_logs [OF assms])
  obtain r ev where rc: "reconcile e fs = (r, ev)" by (cases "reconcile e fs")
  show ?thesis
  proof (cases r)
    case (Inl err)
    then show ?thesis by (simp add: consolidate_try_def rc)
  next
    case (Inr H)
    obtain dfs ev2 where mf: "merge_files e H fs = (dfs, ev2)" by (cases "merge_files e H fs")
    have "filter P ev2 = []" using m [of H] mf by simp
    then show ?thesis
      by (simp add: consolidate_try_def rc Inr mf Let_def assms split: sum.splits)
  qed
qed

lemma run_events:
  assumes "\<And>m. \<not> P (Log INFO m)" "\<And>m. \<not> P (Log ERROR m)" "fs \<noteq> []"
  shows "filter P (snd (snd (consolidate_csvs e fs out processed))) = filter P (snd (reconcile e fs))"
proof -
  obtain r ev where ct: "consolidate_try e fs out = (r, ev)" by (cases "consolidate_try e fs out")
  have "filter P ev = filter P (snd (reconcile e fs))"
    using consolidate_try_events [OF assms(1,2), of e fs out] ct by simp
  then show ?thesis
    by (simp add: consolidate_csvs_def assms ct Let_def split: sum.splits option.splits prod.splits)
qed

lemma consolidate_try_explicit:
  assumes "fst (reconcile e fs) = Inr H" "fst (merge_files e H fs) \<noteq> []"
  shows "fst (consolidate_try e fs (Some n)) =
           Inr (Some (if ends_with ''.csv'' n then n else n @ ''.csv'',
                      reindex (set_order e H) (concat_frames (fst (merge_files e H fs)))))"
  using assms
  by (auto simp: consolidate_try_def choose_filename_def Let_def split: prod.splits sum.splits)

lemma map_filter_all_Some:
  "\<forall>f\<in>set fs. g f \<noteq> None \<Longrightarrow> List.map_filter g fs = map (the \<circ> g) fs"
  by (induction fs) auto

lemma written_frame:
  assumes w: "fst (consolidate_try e fs out) = Inr (Some (fname, final_df))"
    and wf: "\<forall>f\<in>set fs. \<forall>df. parse_file e f = Some df \<longrightarrow> wf_frame df"
  shows "\<exists>H. fst (reconcile e fs) = Inr H \<and>
             final_df = \<lparr>columns = set_order e H,
                         rows = concat (map (\<lambda>df. rows (reindex (set_order e H) df))
                                           (List.map_filter (parse_file e) fs))\<rparr>"
proof -
  from consolidate_try_written [OF w] obtain H where
    H: "fst (reconcile e fs) = Inr H" and
    ne: "fst (merge_files e H fs) \<noteq> []" and
    fd: "final_df = reindex (set_order e H) (concat_frames (fst (merge_files e H fs)))"
    by blast
  let ?dfs = "List.map_filter (parse_file e) fs"
  have "\<forall>df\<in>set ?dfs. wf_frame df" using wf by (auto simp: List.map_filter_def)
  moreover have "?dfs \<noteq> []" using ne by (simp add: merge_files_frames)
  ultimately have "reindex (set_order e H) (concat_frames (map (add_missing (set_order e H)) ?dfs))
      = \<lparr>columns = set_order e H, rows = concat (map (\<lambda>df. rows (reindex (set_order e H) df)) ?dfs)\<rparr>"
    by (rule final_frame)
  then show ?thesis using H fd by (auto simp: merge_files_frames)
qed

lemma read_csv_with_metadata_cong:
  "read_csv e2 = read_csv e1 \<Longrightarrow> read_csv_with_metadata e2 f = read_csv_with_metadata e1 f"
  by (auto simp: read_csv_with_metadata_def split: option.splits)

lemma get_all_headers_from_cong:
  assumes r: "read_csv e2 = read_csv e1"
  shows "get_all_headers_from e2 fs ah hbf = get_all_headers_from e1 fs ah hbf"
  by (induction fs arbitrary: ah hbf)
     (auto simp: read_csv_with_metadata_cong [OF r] Let_def split: prod.splits sum.splits)

lemma reconcile_cong:
  assumes r: "read_csv e2 = read_csv e1" and s: "stdin e2 = stdin e1"
  shows "reconcile e2 fs = reconcile e1 fs"
  by (auto simp: reconcile_def get_all_headers_def get_all_headers_from_cong [OF r] s Let_def
           split: prod.splits sum.splits option.splits list.splits)

lemma parse_file_cong:
  assumes r: "read_csv e2 = read_csv e1"
  shows "parse_file e2 f = parse_file e1 f"
  by (simp add: parse_file_def read_csv_with_metadata_cong [OF r])

lemma reindex_merged:
  assumes "set c2 \<subseteq> set c1"
  shows "reindex c2 \<lparr>columns = c1, rows = concat (map (\<lambda>df. rows (reindex c1 df)) dfs)\<rparr>
           = \<lparr>columns = c2, rows = concat (map (\<lambda>df. rows (reindex c2 df)) dfs)\<rparr>"
proof -
  have key: "map (row_get c1 (map g c1)) c2 = map g c2" for g
    using assms by (auto simp: row_get_map)
  show ?thesis by (simp add: reindex_def map_concat o_def key)
qed

lemma all_parse_written_explicit:
  assumes "fs \<noteq> []" "\<forall>f\<in>set fs. parse_file e f \<noteq> None" "fst (reconcile e fs) = Inr H"
  shows "fst (consolidate_csvs e fs (Some n) processed) = Returned"
proof -
  have "List.map_filter (parse_file e) fs = map (the \<circ> parse_file e) fs"
    by (rule map_filter_all_Some [OF assms(2)])
  then have ne: "fst (merge_files e H fs) \<noteq> []" using assms(1) by (simp add: merge_files_frames)
  from consolidate_try_explicit [OF assms(3) ne, of n] show ?thesis
    by (cases "consolidate_try e fs (Some n)") (simp add: consolidate_csvs_def assms(1))
qed

lemma merged_rows:
  assumes "fst (consolidate_try e fs out) = Inr (Some (fname, final_df))"
    and "\<forall>f\<in>set fs. \<forall>df. parse_file e f = Some df \<longrightarrow> wf_frame df"
  shows "rows final_df =
           concat (map (\<lambda>df. map (\<lambda>r. map (\<lambda>c. if c \<in> set (columns df)
                                                  then r ! index_of c (columns df) else NA)
                                           (columns final_df))
                                 (rows df))
                       (List.map_filter (parse_file e) fs))
         \<and> List.map_filter (parse_file e) fs = map (the \<circ> parse_file e) fs"
proof -
  let ?dfs = "List.map_filter (parse_file e) fs"
  from written_frame [OF assms] obtain H where
    H: "fst (reconcile e fs) = Inr H" and
    fd: "final_df = \<lparr>columns = set_order e H,
                      rows = concat (map (\<lambda>df. rows (reindex (set_order e H) df)) ?dfs)\<rparr>"
    by blast
  have cf: "columns final_df = set_order e H" by (simp add: fd)
  have cell: "row_get (columns df) r c =
                (if c \<in> set (columns df) then r ! index_of c (columns df) else NA)"
    if "df \<in> set ?dfs" "r \<in> set (rows df)" for df r c
  proof -
    from that(1) have "wf_frame df" using assms(2) by (auto simp: List.map_filter_def)
    with that(2) have "length r = length (columns df)" by (auto simp: wf_frame_def list_all_iff)
    then show ?thesis by (simp add: row_get_index row_get_absent)
  qed
  have eq: "map (\<lambda>df. rows (reindex (set_order e H) df)) ?dfs =
        map (\<lambda>df. map (\<lambda>r. map (\<lambda>c. if c \<in> set (columns df)
                                      then r ! index_of c (columns df) else NA)
                               (set_order e H)) (rows df)) ?dfs"
    by (rule map_cong [OF refl]) (simp add: reindex_def cell cong: map_cong)
  have "rows final_df = concat (map (\<lambda>df. rows (reindex (set_order e H) df)) ?dfs)"
    by (simp add: fd)
  also have "\<dots> = concat (map (\<lambda>df. map (\<lambda>r. map (\<lambda>c. if c \<in> set (columns df)
                                      then r ! index_of c (columns df) else NA)
                               (set_order e H)) (rows df)) ?dfs)"
    by (simp only: eq)
  finally have "rows final_df =
           concat (map (\<lambda>df. map (\<lambda>r. map (\<lambda>c. if c \<in> set (columns df)
                                                  then r ! index_of c (columns df) else NA)
                                           (columns final_df))
                                 (rows df)) ?dfs)"
    unfolding cf .
  moreover have "?dfs = map (the \<circ> parse_file e) fs"
    by (rule map_filter_all_Some [OF reconcile_Inr_parses [OF H]])
  ultimately show ?thesis by blast
qed

lemma wf_parsedD:
  "wf_parsed e fs \<Longrightarrow> \<forall>f\<in>set fs. \<forall>df. parse_file e f = Some df \<longrightarrow> wf_frame df"
  by (auto simp: wf_parsed_def list_all_iff split: option.splits)

lemma raised_keeps_processed:
  "fst (consolidate_csvs e fs out processed) = Raised err \<Longrightarrow>
     fst (snd (consolidate_csvs e fs out processed)) = processed"
  by (auto simp: consolidate_csvs_def Let_def split: if_splits prod.splits sum.splits option.splits)

lemma unreadable_file_aborts_run:
  assumes "\<exists>f\<in>set fs. parse_file e f = None"
  shows "\<exists>err. fst (consolidate_csvs e fs out processed) = Raised err \<and>
               fst (snd (consolidate_csvs e fs out processed)) = processed"
proof -
  from reconcile_fail [OF assms] obtain err ev where "reconcile e fs = (Inl err, ev)" by blast
  moreover have "fs \<noteq> []" using assms by auto
  ultimately show ?thesis by (simp add: consolidate_csvs_def consolidate_try_def)
qed

lemma ts_less_below:
  "ts_less x m \<Longrightarrow> \<not> ts_less t m \<Longrightarrow> \<not> ts_less t x"
  by (auto simp: ts_less_def)

lemma ts_less_above:
  "ts_less m x \<Longrightarrow> \<not> ts_less m t \<Longrightarrow> \<not> ts_less x t"
  by (auto simp: ts_less_def)

lemma fold_min_timestamps:
  "\<exists>lo. fold (\<lambda>x m. if pd_less x m then x else m) (map TS ts) (TS t0) = TS lo \<and>
        lo \<in> set (t0 # ts) \<and> (\<forall>t\<in>set (t0 # ts). \<not> ts_less t lo)"
proof (induction ts arbitrary: t0)
  case Nil
  then show ?case by (auto simp: ts_less_def)
next
  case (Cons x ts)
  show ?case
  proof (cases "ts_less x t0")
    case True
    from Cons.IH [of x] obtain lo where
      lo: "fold (\<lambda>x m. if pd_less x m then x else m) (map TS ts) (TS x) = TS lo"
        "lo \<in> set (x # ts)" "\<forall>t\<in>set (x # ts). \<not> ts_less t lo"
      by blast
    from lo(3) have "\<not> ts_less x lo" by simp
    with True have "\<not> ts_less t0 lo" by (auto simp: ts_less_def)
    with lo True show ?thesis by auto
  next
    case False
    from Cons.IH [of t0] obtain lo where
      lo: "fold (\<lambda>x m. if pd_less x m then x else m) (map TS ts) (TS t0) = TS lo"
        "lo \<in> set (t0 # ts)" "\<forall>t\<in>set (t0 # ts). \<not> ts_less t lo"
      by blast
    from lo(3) have "\<not> ts_less t0 lo" by simp
    with False have "\<not> ts_less x lo" by (auto simp: ts_less_def)
    with lo False show ?thesis by auto
  qed
qed

lemma fold_max_timestamps:
  "\<exists>hi. fold (\<lambda>x m. if pd_less m x then x else m) (map TS ts) (TS t0) = TS hi \<and>
        hi \<in> set (t0 # ts) \<and> (\<forall>t\<in>set (t0 # ts). \<not> ts_less hi t)"
proof (induction ts arbitrary: t0)
  case Nil
  then show ?case by (auto simp: ts_less_def)
next
  case (Cons x ts)
  show ?case
  proof (cases "ts_less t0 x")
    case True
    from Cons.IH [of x] obtain hi where
      hi: "fold (\<lambda>x m. if pd_less m x then x else m) (map TS ts) (TS x) = TS hi"
        "hi \<in> set (x # ts)" "\<forall>t\<in>set (x # ts). \<not> ts_less hi t"
      by blast
    from hi(3) have "\<not> ts_less hi x" by simp
    with True have "\<not> ts_less hi t0" by (auto simp: ts_less_def)
    with hi True show ?thesis by auto
  next
    case False
    from Cons.IH [of t0] obtain hi where
      hi: "fold (\<lambda>x m. if pd_less m x then x else m) (map TS ts) (TS t0) = TS hi"
        "hi \<in> set (t0 # ts)" "\<forall>t\<in>set (t0 # ts). \<not> ts_less hi t"
      by blast
    from hi(3) have "\<not> ts_less hi t0" by simp
    with False have "\<not> ts_less hi x" by (auto simp: ts_less_def)
    with hi False show ?thesis by auto
  qed
qed

text \<open>
  The derived name when every representative date is a timestamp: the bounds are the
  least and the greatest of them. When no table gives a date, the name is the current
  date's.
\<close>

lemma date_range_of_timestamps:
  assumes "List.map_filter (get_csv_date e) dfs = map TS ts" and "ts \<noteq> []"
  shows "\<exists>lo hi. lo \<in> set ts \<and> hi \<in> set ts \<and>
           (\<forall>t\<in>set ts. \<not> ts_less t lo \<and> \<not> ts_less hi t) \<and>
           generate_date_range_filename e dfs =
             Inr (''consolidated_'' @ strftime lo @ ''_thru_'' @ strftime hi @ ''.csv'')"
proof -
  obtain t0 ts' where ts: "ts = t0 # ts'" using assms(2) by (cases ts) auto
  from fold_min_timestamps [of ts' t0] obtain lo where
    lo: "py_min (map TS ts) = TS lo" "lo \<in> set ts" "\<forall>t\<in>set ts. \<not> ts_less t lo"
    by (auto simp: ts)
  from fold_max_timestamps [of ts' t0] obtain hi where
    hi: "py_max (map TS ts) = TS hi" "hi \<in> set ts" "\<forall>t\<in>set ts. \<not> ts_less hi t"
    by (auto simp: ts)
  have "generate_date_range_filename e dfs =
          Inr (''consolidated_'' @ strftime lo @ ''_thru_'' @ strftime hi @ ''.csv'')"
    using assms(2) by (simp add: generate_date_range_filename_def assms(1) lo(1) hi(1))
  with lo hi show ?thesis by blast
qed

lemma date_range_fallback:
  "List.map_filter (get_csv_date e) dfs = [] \<Longrightarrow>
     generate_date_range_filename e dfs = Inr (''consolidated_'' @ strftime (now e) @ ''.csv'')"
  by (simp add: generate_date_range_filename_def)

lemma date_range_example:
  "generate_date_range_filename (example_env alphabetical None)
     [\<lparr>columns = [''date''], rows = [[Val ''2024-01-05''], [Val ''2024-01-10'']]\<rparr>,
      \<lparr>columns = [''Timestamp''], rows = [[Val ''2024-02-01'']]\<rparr>]
   = Inr ''consolidated_01-05-2024_thru_02-01-2024.csv''"
  by code_simp

section \<open>The properties\<close>

subsection \<open>C1: files with identical column sets\<close>

text \<open>
  C1 says that when all input files have the same column set, the reconciliation does
  not prompt and the written columns are in the order of the first file. The order is
  not kept: the headers pass through a Python set, and the output columns are
  \<^verbatim>\<open>list(all_headers)\<close>. With the files \<open>a.csv\<close> (columns ID, Timestamp, Transaction Type,
  Amount) and \<open>d.csv\<close> (the same columns), a process whose set iterates alphabetically
  writes Amount first.
\<close>

theorem C1_counterexample:
  "headers_of (example_env alphabetical None) file_a = headers_of (example_env alphabetical None) file_d
   \<and> map_option columns (parse_file (example_env alphabetical None) file_a)
       = Some [''ID'', ''Timestamp'', ''Transaction Type'', ''Amount'']
   \<and> fst (consolidate_try (example_env alphabetical None) [file_a, file_d] (Some ''out.csv''))
       = Inr (Some (''out.csv'',
           \<lparr>columns = [''Amount'', ''ID'', ''Timestamp'', ''Transaction Type''],
            rows = [[Val ''10'', Val ''1'', Val ''2024-01-05'', Val ''deposit''],
                    [Val ''20'', Val ''2'', Val ''2024-01-10'', Val ''payment''],
                    [Val ''40'', Val ''4'', Val ''2024-01-20'', Val ''deposit'']]\<rparr>))
   \<and> fst (snd (consolidate_csvs (example_env alphabetical None) [file_a, file_d]
                (Some ''out.csv'') Map.empty)) ''out.csv''
       = Some (line ''Amount,ID,Timestamp,Transaction Type'' @ line ''10,1,2024-01-05,deposit''
               @ line ''20,2,2024-01-10,payment'' @ line ''40,4,2024-01-20,deposit'')"
  by code_simp

text \<open>
  C1 as amended: when all files can be read and have the column set of the first file,
  the run never prompts, and the columns of a written table are the first file's
  columns as a set, in the order in which the process iterates over that set.
\<close>

theorem C1_identical_column_sets:
  assumes "fs \<noteq> []" and "distinct (map name fs)"
    and "list_all (\<lambda>f. parse_file e f \<noteq> None) fs"
    and "list_all (\<lambda>f. headers_of e f = headers_of e (hd fs)) fs"
    and "set (set_order e (headers_of e (hd fs))) = headers_of e (hd fs)"
  shows "Prompt \<notin> set (snd (snd (consolidate_csvs e fs out processed))) \<and>
         (\<forall>fname final_df. fst (consolidate_try e fs out) = Inr (Some (fname, final_df)) \<longrightarrow>
            columns final_df = set_order e (headers_of e (hd fs)) \<and>
            set (columns final_df) = headers_of e (hd fs))"
proof -
  have rd: "\<forall>f\<in>set fs. parse_file e f \<noteq> None" using assms(3) by (simp add: list_all_iff)
  have u: "union_headers e fs = headers_of e (hd fs)"
    using assms(1,4) by (cases fs) (auto simp: union_headers_def list_all_iff)
  have rc: "reconcile e fs = (Inr (headers_of e (hd fs)), [])"
    using reconcile_ok [OF assms(1,2) rd] by (simp add: u)
  have "filter (\<lambda>ev. ev = Prompt) (snd (snd (consolidate_csvs e fs out processed))) =
          filter (\<lambda>ev. ev = Prompt) (snd (reconcile e fs))"
    by (rule run_events) (simp_all add: assms(1))
  then have "filter (\<lambda>ev. ev = Prompt) (snd (snd (consolidate_csvs e fs out processed))) = []"
    by (simp add: rc)
  then have p: "Prompt \<notin> set (snd (snd (consolidate_csvs e fs out processed)))"
    by (auto simp: filter_empty_conv)
  have "columns final_df = set_order e (headers_of e (hd fs))"
    if "fst (consolidate_try e fs out) = Inr (Some (fname, final_df))" for fname final_df
    using consolidate_try_written [OF that] by (auto simp: rc reindex_def)
  then show ?thesis using p assms(5) by auto
qed

theorem C1_identical_column_sets_witness:
  "[file_a, file_d] \<noteq> [] \<and> distinct (map name [file_a, file_d])
   \<and> list_all (\<lambda>f. parse_file (example_env alphabetical None) f \<noteq> None) [file_a, file_d]
   \<and> list_all (\<lambda>f. headers_of (example_env alphabetical None) f
                     = headers_of (example_env alphabetical None) (hd [file_a, file_d]))
        [file_a, file_d]
   \<and> set (set_order (example_env alphabetical None)
            (headers_of (example_env alphabetical None) (hd [file_a, file_d])))
       = headers_of (example_env alphabetical None) (hd [file_a, file_d])
   \<and> fst (consolidate_try (example_env alphabetical None) [file_a, file_d] (Some ''out.csv''))
       = Inr (Some (''out.csv'', table_a_d))
   \<and> Prompt \<notin> set (snd (snd (consolidate_csvs (example_env alphabetical None) [file_a, file_d]
                                 (Some ''out.csv'') Map.empty)))
   \<and> columns table_a_d = set_order (example_env alphabetical None)
                            (headers_of (example_env alphabetical None) (hd [file_a, file_d]))
   \<and> set (columns table_a_d) = headers_of (example_env alphabetical None) (hd [file_a, file_d])"
proof -
  let ?e = "example_env alphabetical None" and ?fs = "[file_a, file_d]"
  have h1: "?fs \<noteq> []" by simp
  have h2: "distinct (map name ?fs)" by code_simp
  have h3: "list_all (\<lambda>f. parse_file ?e f \<noteq> None) ?fs" by code_simp
  have h4: "list_all (\<lambda>f. headers_of ?e f = headers_of ?e (hd ?fs)) ?fs" by code_simp
  have h5: "set (set_order ?e (headers_of ?e (hd ?fs))) = headers_of ?e (hd ?fs)" by code_simp
  have w: "fst (consolidate_try ?e ?fs (Some ''out.csv'')) = Inr (Some (''out.csv'', table_a_d))"
    by code_simp
  from C1_identical_column_sets [OF h1 h2 h3 h4 h5, of "Some ''out.csv''" Map.empty] w
  show ?thesis using h1 h2 h3 h4 h5 by blast
qed

subsection \<open>C2: a file without the header marker among valid files\<close>

text \<open>
  C2 says that a file lacking the marker is left out while the other files are merged
  and written. The merge loop does skip such a file, but \<^verbatim>\<open>get_all_headers\<close> reads every
  file first and raises again on the first failure, so the merge loop is never reached:
  with the valid \<open>a.csv\<close> and the markerless \<open>bad.csv\<close> the run ends with the
  \<^verbatim>\<open>ValueError\<close> and writes nothing.
\<close>

theorem C2_markerless_file_aborts_run:
  "consolidate_csvs (example_env alphabetical None) [file_a, file_bad] (Some ''out.csv'') Map.empty
     = (Raised (ValueError ''Could not find CSV headers''), Map.empty,
        [Log INFO (FoundCsvFiles 2),
         Log ERROR (ErrorReading ''bad.csv'' (ValueError ''Could not find CSV headers'')),
         Log ERROR (ErrorReadingHeaders ''bad.csv'' (ValueError ''Could not find CSV headers'')),
         Log ERROR (ErrorOccurred (ValueError ''Could not find CSV headers''))])"
proof -
  let ?run = "consolidate_csvs (example_env alphabetical None) [file_a, file_bad]
                (Some ''out.csv'') Map.empty"
  have r: "fst ?run = Raised (ValueError ''Could not find CSV headers'')" by code_simp
  have ev: "snd (snd ?run) =
        [Log INFO (FoundCsvFiles 2),
         Log ERROR (ErrorReading ''bad.csv'' (ValueError ''Could not find CSV headers'')),
         Log ERROR (ErrorReadingHeaders ''bad.csv'' (ValueError ''Could not find CSV headers'')),
         Log ERROR (ErrorOccurred (ValueError ''Could not find CSV headers''))]"
    by code_simp
  from raised_keeps_processed [OF r] have "fst (snd ?run) = Map.empty" .
  with r ev show ?thesis by (simp add: prod_eq_iff)
qed

subsection \<open>C3: every row has a cell for every final column\<close>

text \<open>
  C3: whenever the run writes a file, the table written has the final column list
  (the reconciled header set in its iteration order) as its columns, and every row has
  exactly one cell for each of them, whatever columns the source file had. The file
  written holds that table.
\<close>

theorem C3_every_row_has_every_column:
  assumes "fst (consolidate_try e fs out) = Inr (Some (fname, final_df))"
  shows "\<exists>H. fst (reconcile e fs) = Inr H \<and>
             columns final_df = set_order e H \<and>
             list_all (\<lambda>r. length r = length (set_order e H)) (rows final_df) \<and>
             fst (snd (consolidate_csvs e fs out processed)) fname = Some (to_csv e final_df)"
proof -
  from consolidate_try_written [OF assms] obtain H where
    H: "fst (reconcile e fs) = Inr H" and
    ne: "fst (merge_files e H fs) \<noteq> []" and
    fd: "final_df = reindex (set_order e H) (concat_frames (fst (merge_files e H fs)))"
    by blast
  have "fs \<noteq> []" using ne by auto
  then have "fst (snd (consolidate_csvs e fs out processed)) fname = Some (to_csv e final_df)"
    using assms by (cases "consolidate_try e fs out") (simp add: consolidate_csvs_def)
  moreover have "list_all (\<lambda>r. length r = length (set_order e H)) (rows final_df)"
    by (simp add: fd reindex_def list_all_iff)
  moreover have "columns final_df = set_order e H" by (simp add: fd reindex_def)
  ultimately show ?thesis using H by blast
qed

theorem C3_every_row_has_every_column_witness:
  "fst (consolidate_try (example_env alphabetical (Some ''Y'')) [file_a, file_b] (Some ''out.csv''))
     = Inr (Some (''out.csv'', table_a_b_all))
   \<and> (\<exists>H. fst (reconcile (example_env alphabetical (Some ''Y'')) [file_a, file_b]) = Inr H \<and>
          columns table_a_b_all = set_order (example_env alphabetical (Some ''Y'')) H \<and>
          list_all (\<lambda>r. length r = length (set_order (example_env alphabetical (Some ''Y'')) H))
            (rows table_a_b_all) \<and>
          fst (snd (consolidate_csvs (example_env alphabetical (Some ''Y'')) [file_a, file_b]
                      (Some ''out.csv'') Map.empty)) ''out.csv''
            = Some (to_csv (example_env alphabetical (Some ''Y'')) table_a_b_all))"
proof -
  have h: "fst (consolidate_try (example_env alphabetical (Some ''Y'')) [file_a, file_b] (Some ''out.csv''))
     = Inr (Some (''out.csv'', table_a_b_all))"
    by code_simp
  from C3_every_row_has_every_column [OF h, of Map.empty] show ?thesis using h by blast
qed

subsection \<open>C4: two runs on the same inputs\<close>

text \<open>
  C4 says that two runs on the same unmodified inputs with the same explicit output
  name write byte-identical files. The column order of the output is the iteration
  order of a Python set of strings, which depends on the hash seed of the process and
  is not an input of the run: on the single file \<open>a.csv\<close>, a process iterating
  alphabetically and a process iterating in the file's order write different texts.
\<close>

theorem C4_counterexample:
  "fst (snd (consolidate_csvs (example_env alphabetical None) [file_a] (Some ''out.csv'') Map.empty))
       ''out.csv''
     = Some (line ''Amount,ID,Timestamp,Transaction Type'' @ line ''10,1,2024-01-05,deposit''
             @ line ''20,2,2024-01-10,payment'')
   \<and> fst (snd (consolidate_csvs (example_env as_in_file None) [file_a] (Some ''out.csv'') Map.empty))
       ''out.csv''
     = Some (line ''ID,Timestamp,Transaction Type,Amount'' @ line ''1,2024-01-05,deposit,10''
             @ line ''2,2024-01-10,payment,20'')
   \<and> fst (snd (consolidate_csvs (example_env alphabetical None) [file_a] (Some ''out.csv'') Map.empty))
       ''out.csv''
     \<noteq> fst (snd (consolidate_csvs (example_env as_in_file None) [file_a] (Some ''out.csv'') Map.empty))
       ''out.csv''"
  by code_simp

text \<open>
  C4 as amended: two runs on the same files with the same explicit output name and the
  same answer at the prompt write a file of the same name, and the two tables have the
  same column set and the same rows in the same order, the second being the first with
  its columns reordered; they are equal when the two processes iterate over the header
  set in the same order. (Frames are taken as the reader gives them: distinct column
  names, one cell per column.)
\<close>

theorem C4_same_table_up_to_column_order:
  assumes same_reader: "read_csv e2 = read_csv e1" and same_answer: "stdin e2 = stdin e1"
    and wf: "wf_parsed e1 fs"
    and H: "fst (reconcile e1 fs) = Inr H"
    and o1: "set (set_order e1 H) = H" and o2: "set (set_order e2 H) = H"
    and w1: "fst (consolidate_try e1 fs (Some n)) = Inr (Some (fname, df1))"
  shows "\<exists>df2. fst (consolidate_try e2 fs (Some n)) = Inr (Some (fname, df2)) \<and>
               set (columns df2) = set (columns df1) \<and>
               df2 = reindex (columns df2) df1 \<and>
               (set_order e2 H = set_order e1 H \<longrightarrow> df2 = df1)"
proof -
  let ?dfs = "List.map_filter (parse_file e1) fs"
  let ?c1 = "set_order e1 H" and ?c2 = "set_order e2 H"
  note wf1 = wf_parsedD [OF wf]
  from written_frame [OF w1 wf1] H
  have d1: "df1 = \<lparr>columns = ?c1, rows = concat (map (\<lambda>df. rows (reindex ?c1 df)) ?dfs)\<rparr>"
    by auto
  from consolidate_try_written [OF w1] H
  have ne1: "fst (merge_files e1 H fs) \<noteq> []" and
    fn: "choose_filename e1 (Some n) (fst (merge_files e1 H fs)) = Inr fname" by auto
  have pf: "parse_file e2 = parse_file e1" using parse_file_cong [OF same_reader] by auto
  have H2: "fst (reconcile e2 fs) = Inr H" using reconcile_cong [OF same_reader same_answer] H by simp
  have ne2: "fst (merge_files e2 H fs) \<noteq> []" using ne1 by (simp add: merge_files_frames pf)
  define df2 where "df2 = reindex ?c2 (concat_frames (fst (merge_files e2 H fs)))"
  have fname: "fname = (if ends_with ''.csv'' n then n else n @ ''.csv'')"
    using fn by (simp add: choose_filename_def)
  have w2: "fst (consolidate_try e2 fs (Some n)) = Inr (Some (fname, df2))"
    using consolidate_try_explicit [OF H2 ne2] by (simp add: df2_def fname)
  have wf2: "\<forall>f\<in>set fs. \<forall>df. parse_file e2 f = Some df \<longrightarrow> wf_frame df" using wf1 pf by simp
  from written_frame [OF w2 wf2] H2
  have d2: "df2 = \<lparr>columns = ?c2, rows = concat (map (\<lambda>df. rows (reindex ?c2 df)) ?dfs)\<rparr>"
    by (auto simp: pf)
  have sub: "set ?c2 \<subseteq> set ?c1" using o1 o2 by simp
  have "reindex ?c2 df1 = df2"
    unfolding d1 d2 by (rule reindex_merged [OF sub])
  then have "df2 = reindex (columns df2) df1" by (simp add: d2)
  moreover have "set (columns df2) = set (columns df1)" using o1 o2 by (simp add: d1 d2)
  moreover have "set_order e2 H = set_order e1 H \<longrightarrow> df2 = df1" by (simp add: d1 d2)
  ultimately show ?thesis using w2 by blast
qed

theorem C4_same_table_up_to_column_order_witness:
  "read_csv (example_env as_in_file (Some ''n'')) = read_csv (example_env alphabetical (Some ''n''))
   \<and> stdin (example_env as_in_file (Some ''n'')) = stdin (example_env alphabetical (Some ''n''))
   \<and> wf_parsed (example_env alphabetical (Some ''n'')) [file_a, file_b]
   \<and> fst (reconcile (example_env alphabetical (Some ''n'')) [file_a, file_b])
       = Inr {''ID'', ''Timestamp'', ''Transaction Type'', ''Amount''}
   \<and> set (set_order (example_env alphabetical (Some ''n''))
            {''ID'', ''Timestamp'', ''Transaction Type'', ''Amount''})
       = {''ID'', ''Timestamp'', ''Transaction Type'', ''Amount''}
   \<and> set (set_order (example_env as_in_file (Some ''n''))
            {''ID'', ''Timestamp'', ''Transaction Type'', ''Amount''})
       = {''ID'', ''Timestamp'', ''Transaction Type'', ''Amount''}
   \<and> fst (consolidate_try (example_env alphabetical (Some ''n'')) [file_a, file_b] (Some ''out''))
       = Inr (Some (''out.csv'', table_a_b_base))
   \<and> (\<exists>df2. fst (consolidate_try (example_env as_in_file (Some ''n'')) [file_a, file_b] (Some ''out''))
               = Inr (Some (''out.csv'', df2)) \<and>
             set (columns df2) = set (columns table_a_b_base) \<and>
             df2 = reindex (columns df2) table_a_b_base \<and>
             (set_order (example_env as_in_file (Some ''n''))
                {''ID'', ''Timestamp'', ''Transaction Type'', ''Amount''}
              = set_order (example_env alphabetical (Some ''n''))
                {''ID'', ''Timestamp'', ''Transaction Type'', ''Amount''}
              \<longrightarrow> df2 = table_a_b_base))"
proof -
  let ?e1 = "example_env alphabetical (Some ''n'')" and ?e2 = "example_env as_in_file (Some ''n'')"
  let ?H = "{''ID'', ''Timestamp'', ''Transaction Type'', ''Amount''}"
  have h1: "read_csv ?e2 = read_csv ?e1" by (simp add: example_env_def)
  have h2: "stdin ?e2 = stdin ?e1" by (simp add: example_env_def)
  have h3: "wf_parsed ?e1 [file_a, file_b]" by code_simp
  have h4: "fst (reconcile ?e1 [file_a, file_b]) = Inr ?H" by code_simp
  have h5: "set (set_order ?e1 ?H) = ?H" by code_simp
  have h6: "set (set_order ?e2 ?H) = ?H" by code_simp
  have h7: "fst (consolidate_try ?e1 [file_a, file_b] (Some ''out'')) = Inr (Some (''out.csv'', table_a_b_base))"
    by code_simp
  from C4_same_table_up_to_column_order [OF h1 h2 h3 h4 h5 h6 h7]
  show ?thesis using h1 h2 h3 h4 h5 h6 h7 by blast
qed

subsection \<open>C5: the file name derived from the dates\<close>

text \<open>
  C5 describes the derived file name: the earliest and latest representative dates of
  the tables, or the current date when no table gives one. The functions do this (the
  lemma \<open>date_range_example\<close> is the claim's example), except where a table's first
  date-like column holds no date at all: \<^verbatim>\<open>pd.to_datetime\<close> turns its nulls into \<^verbatim>\<open>NaT\<close>,
  \<^verbatim>\<open>dates.min()\<close> is \<^verbatim>\<open>NaT\<close>, which is not \<^verbatim>\<open>None\<close>, and \<^verbatim>\<open>strftime\<close> on it raises. With the
  single file \<open>e.csv\<close>, whose Timestamp column is empty, and no output name, the run
  does not fall back to the current date: it raises and writes nothing.
\<close>

theorem C5_empty_date_column_raises:
  "consolidate_csvs (example_env alphabetical None) [file_e] None Map.empty
     = (Raised (ValueError ''NaTType does not support strftime''), Map.empty,
        [Log INFO (FoundCsvFiles 1), Log INFO (SuccessfullyRead ''e.csv''),
         Log ERROR (ErrorOccurred (ValueError ''NaTType does not support strftime''))])"
proof -
  let ?run = "consolidate_csvs (example_env alphabetical None) [file_e] None Map.empty"
  have r: "fst ?run = Raised (ValueError ''NaTType does not support strftime'')" by code_simp
  have ev: "snd (snd ?run) =
        [Log INFO (FoundCsvFiles 1), Log INFO (SuccessfullyRead ''e.csv''),
         Log ERROR (ErrorOccurred (ValueError ''NaTType does not support strftime''))]"
    by code_simp
  from raised_keeps_processed [OF r] have "fst (snd ?run) = Map.empty" .
  with r ev show ?thesis by (simp add: prod_eq_iff)
qed

subsection \<open>C6: the answer at the prompt decides the schema\<close>



subsection \<open>C7: no file has the header marker\<close>



subsection \<open>C8: the cells of a merged file in the output\<close>




subsection \<open>C9: files whose columns are among the first file's\<close>

text \<open>
  C9: when all files can be read and every file's column set is included in the first
  file's, the run logs no warning and does not prompt; the final column set is the
  first file's, a run with an explicit output name returns normally, and in a written
  table a file's row has a null under each column the file lacked and its own cell
  under every other column.
\<close>

theorem C9_subset_headers_no_prompt:
  assumes "fs \<noteq> []" and "distinct (map name fs)"
    and "list_all (\<lambda>f. parse_file e f \<noteq> None) fs"
    and "list_all (\<lambda>f. headers_of e f \<subseteq> headers_of e (hd fs)) fs"
    and "wf_parsed e fs"
  shows "Prompt \<notin> set (snd (snd (consolidate_csvs e fs out processed)))
         \<and> (\<forall>m. Log WARNING m \<notin> set (snd (snd (consolidate_csvs e fs out processed))))
         \<and> reconcile e fs = (Inr (headers_of e (hd fs)), [])
         \<and> (\<forall>n. out = Some n \<longrightarrow> fst (consolidate_csvs e fs out processed) = Returned)
         \<and> (\<forall>fname final_df. fst (consolidate_try e fs out) = Inr (Some (fname, final_df)) \<longrightarrow>
              columns final_df = set_order e (headers_of e (hd fs)) \<and>
              rows final_df =
                concat (map (\<lambda>df. map (\<lambda>r. map (\<lambda>c. if c \<in> set (columns df)
                                                       then r ! index_of c (columns df) else NA)
                                                (columns final_df))
                                      (rows df))
                            (map (the \<circ> parse_file e) fs)))"
proof -
  have rd: "\<forall>f\<in>set fs. parse_file e f \<noteq> None" using assms(3) by (simp add: list_all_iff)
  have u: "union_headers e fs = headers_of e (hd fs)"
    using assms(1,4) by (cases fs) (auto simp: union_headers_def list_all_iff)
  have rc: "reconcile e fs = (Inr (headers_of e (hd fs)), [])"
    using reconcile_ok [OF assms(1,2) rd] by (simp add: u)
  have ev: "filter P (snd (snd (consolidate_csvs e fs out processed))) = []"
    if "\<And>m. \<not> P (Log INFO m)" "\<And>m. \<not> P (Log ERROR m)" for P
    using run_events [of P fs e out processed, OF that assms(1)] by (simp add: rc)
  have p: "Prompt \<notin> set (snd (snd (consolidate_csvs e fs out processed)))"
    using ev [of "\<lambda>ev. ev = Prompt"] by (auto simp: filter_empty_conv)
  have w: "Log WARNING m \<notin> set (snd (snd (consolidate_csvs e fs out processed)))" for m
    using ev [of "\<lambda>ev. ev = Log WARNING m"] by (auto simp: filter_empty_conv)
  have r: "fst (consolidate_csvs e fs out processed) = Returned" if "out = Some n" for n
    using all_parse_written_explicit [OF assms(1) rd, of "headers_of e (hd fs)" n processed] that
    by (simp add: rc)
  have t: "columns final_df = set_order e (headers_of e (hd fs)) \<and>
           rows final_df =
                concat (map (\<lambda>df. map (\<lambda>r. map (\<lambda>c. if c \<in> set (columns df)
                                                       then r ! index_of c (columns df) else NA)
                                                (columns final_df))
                                      (rows df))
                            (map (the \<circ> parse_file e) fs))"
    if wr: "fst (consolidate_try e fs out) = Inr (Some (fname, final_df))" for fname final_df
  proof -
    have "columns final_df = set_order e (headers_of e (hd fs))"
      using consolidate_try_written [OF wr] by (auto simp: rc reindex_def)
    moreover from merged_rows [OF wr wf_parsedD [OF assms(5)]]
    have "rows final_df =
                concat (map (\<lambda>df. map (\<lambda>r. map (\<lambda>c. if c \<in> set (columns df)
                                                       then r ! index_of c (columns df) else NA)
                                                (columns final_df))
                                      (rows df))
                            (map (the \<circ> parse_file e) fs))"
      by simp
    ultimately show ?thesis by blast
  qed
  show ?thesis using p w rc r t by blast
qed

theorem C9_subset_headers_no_prompt_witness:
  "[file_a, file_c] \<noteq> [] \<and> distinct (map name [file_a, file_c])
   \<and> list_all (\<lambda>f. parse_file (example_env alphabetical None) f \<noteq> None) [file_a, file_c]
   \<and> list_all (\<lambda>f. headers_of (example_env alphabetical None) f
                     \<subseteq> headers_of (example_env alphabetical None) (hd [file_a, file_c]))
        [file_a, file_c]
   \<and> wf_parsed (example_env alphabetical None) [file_a, file_c]
   \<and> fst (consolidate_try (example_env alphabetical None) [file_a, file_c] (Some ''merged''))
       = Inr (Some (''merged.csv'', table_a_c))
   \<and> Prompt \<notin> set (snd (snd (consolidate_csvs (example_env alphabetical None) [file_a, file_c]
                                 (Some ''merged'') Map.empty)))
   \<and> (\<forall>m. Log WARNING m \<notin> set (snd (snd (consolidate_csvs (example_env alphabetical None)
                                              [file_a, file_c] (Some ''merged'') Map.empty))))
   \<and> reconcile (example_env alphabetical None) [file_a, file_c]
       = (Inr (headers_of (example_env alphabetical None) (hd [file_a, file_c])), [])
   \<and> fst (consolidate_csvs (example_env alphabetical None) [file_a, file_c] (Some ''merged'') Map.empty)
       = Returned
   \<and> columns table_a_c = set_order (example_env alphabetical None)
                            (headers_of (example_env alphabetical None) (hd [file_a, file_c]))
   \<and> rows table_a_c =
       concat (map (\<lambda>df. map (\<lambda>r. map (\<lambda>c. if c \<in> set (columns df)
                                              then r ! index_of c (columns df) else NA)
                                       (columns table_a_c))
                             (rows df))
                   (map (the \<circ> parse_file (example_env alphabetical None)) [file_a, file_c]))"
proof -
  let ?e = "example_env alphabetical None" and ?fs = "[file_a, file_c]"
  have h1: "?fs \<noteq> []" by simp
  have h2: "distinct (map name ?fs)" by code_simp
  have h3: "list_all (\<lambda>f. parse_file ?e f \<noteq> None) ?fs" by code_simp
  have h4: "list_all (\<lambda>f. headers_of ?e f \<subseteq> headers_of ?e (hd ?fs)) ?fs" by code_simp
  have h5: "wf_parsed ?e ?fs" by code_simp
  have w: "fst (consolidate_try ?e ?fs (Some ''merged'')) = Inr (Some (''merged.csv'', table_a_c))"
    by code_simp
  from C9_subset_headers_no_prompt [OF h1 h2 h3 h4 h5, of "Some ''merged''" Map.empty] w
  show ?thesis using h1 h2 h3 h4 h5 by blast
qed

subsection \<open>C10: an output file that already exists\<close>



end
